theory Spec2Isabelle
  imports Complex_Main "HOL-Library.Sublist"
begin

section \<open>Data model of the orchestrator backend\<close>

text \<open>
  The backend keeps task and subtask states and capability types as plain Python strings
  (module constants), so they are strings here as well; a stored record may carry any string.
\<close>

definition PENDING :: string where "PENDING = ''pending''"
definition IN_PROGRESS :: string where "IN_PROGRESS = ''in_progress''"
definition COMPLETED :: string where "COMPLETED = ''completed''"
definition FAILED :: string where "FAILED = ''failed''"

definition WEB_RESEARCH :: string where "WEB_RESEARCH = ''web_research''"
definition CODE_GENERATION :: string where "CODE_GENERATION = ''code_generation''"
definition DATA_ANALYSIS :: string where "DATA_ANALYSIS = ''data_analysis''"
definition CONTENT_CREATION :: string where "CONTENT_CREATION = ''content_creation''"

text \<open>
  \<^verbatim>\<open>class TaskRequest(BaseModel)\<close>: the field \<^verbatim>\<open>context\<close> is written \<open>context_d\<close>.
\<close>

record TaskRequest =
  task :: string
  context_d :: "(string \<times> string) list"
  priority :: int
  agent_type :: "string option"

text \<open>
  \<^verbatim>\<open>class Subtask(BaseModel)\<close>: fields \<^verbatim>\<open>id, type, status, result, error, progress\<close>, written
  with the suffix \<open>_s\<close>. Progress is a Python float that only ever holds \<open>0.0\<close>, \<open>1.0\<close> or
  the quotient of two list lengths; the exact rational is used for it (the rounded quotient
  is monotone in the numerator and \<open>k / k\<close> is exactly \<open>1.0\<close>).
\<close>

record Subtask =
  id_s :: string
  type_s :: string
  status_s :: string
  result_s :: "string option"
  error_s :: "string option"
  progress_s :: rat

text \<open>
  A subtask as a JSON object (\<^verbatim>\<open>List[dict]\<close> in \<^verbatim>\<open>TaskResponse\<close>, and the form kept in
  Redis). Besides the six keys of the model the object may carry the key
  \<^verbatim>\<open>dependencies\<close> that the frontend's \<^verbatim>\<open>Subtask\<close> interface declares; an absent key is the
  empty list.
\<close>

record SubtaskDict = Subtask +
  dependencies :: "string list"

text \<open>\<^verbatim>\<open>Subtask(id=..., type=..., status=...)\<close> with the defaults of the class.\<close>

definition Subtask_init :: "string \<Rightarrow> string \<Rightarrow> string \<Rightarrow> Subtask" where
  "Subtask_init i ty st =
     \<lparr>id_s = i, type_s = ty, status_s = st, result_s = None, error_s = None, progress_s = 0\<rparr>"

text \<open>
  \<^verbatim>\<open>Subtask(**st)\<close>: the model has no \<^verbatim>\<open>dependencies\<close> field and pydantic drops keys the
  model does not declare.
\<close>

definition Subtask_parse :: "SubtaskDict \<Rightarrow> Subtask" where
  "Subtask_parse d =
     \<lparr>id_s = id_s d, type_s = type_s d, status_s = status_s d, result_s = result_s d,
      error_s = error_s d, progress_s = progress_s d\<rparr>"

text \<open>\<^verbatim>\<open>st.dict()\<close>: exactly the six keys of the model.\<close>

definition Subtask_dict :: "Subtask \<Rightarrow> SubtaskDict" where
  "Subtask_dict s =
     \<lparr>id_s = id_s s, type_s = type_s s, status_s = status_s s, result_s = result_s s,
      error_s = error_s s, progress_s = progress_s s, dependencies = []\<rparr>"

text \<open>\<^verbatim>\<open>class TaskResponse(BaseModel)\<close>.\<close>

record TaskResponse =
  task_id :: string
  status :: string
  result :: "string option"
  error :: "string option"
  progress :: rat
  subtasks :: "SubtaskDict list"

section \<open>The planner\<close>

text \<open>
  \<^verbatim>\<open>str.lower()\<close> on the code points a \<open>char\<close> can hold (Latin-1): the capitals
  \<open>A\<close>..\<open>Z\<close> and the accented capitals \<open>0xC0\<close>..\<open>0xDE\<close> without the multiplication
  sign move up by 32, every other character is kept.
\<close>

definition lower_char :: "char \<Rightarrow> char" where
  "lower_char c =
     (let n = (of_char c :: nat)
      in if (65 \<le> n \<and> n \<le> 90) \<or> (192 \<le> n \<and> n \<le> 222 \<and> n \<noteq> 215)
         then char_of (n + 32) else c)"

definition lower :: "string \<Rightarrow> string" where
  "lower s = map lower_char s"

text \<open>
  \<^verbatim>\<open>OrchestratorAgent.validate_task\<close>: \<^verbatim>\<open>not task.task\<close> holds for the empty string only.
\<close>

definition validate_task :: "TaskRequest \<Rightarrow> bool" where
  "validate_task request = (if task request = [] then False else True)"

text \<open>
  \<^verbatim>\<open>OrchestratorAgent.plan_task\<close>. Python's \<^verbatim>\<open>kw in s\<close> on strings is the contiguous
  substring test \<^const>\<open>sublist\<close>. \<^verbatim>\<open>uuid.uuid4()\<close> is a source of identifiers outside the
  program: \<open>uuid4 k\<close> is the value of the \<open>k\<close>-th call and the number of calls made so far is
  passed along.
\<close>

definition plan_task :: "(nat \<Rightarrow> string) \<Rightarrow> nat \<Rightarrow> TaskRequest \<Rightarrow> Subtask list \<times> nat" where
  "plan_task uuid4 n request =
     (let subtasks = [];
          (subtasks, n) =
            (if sublist ''research'' (lower (task request))
             then (subtasks @ [Subtask_init (uuid4 n) WEB_RESEARCH PENDING], Suc n)
             else (subtasks, n));
          (subtasks, n) =
            (if sublist ''code'' (lower (task request))
             then (subtasks @ [Subtask_init (uuid4 n) CODE_GENERATION PENDING], Suc n)
             else (subtasks, n));
          (subtasks, n) =
            (if sublist ''analyze'' (lower (task request))
             then (subtasks @ [Subtask_init (uuid4 n) DATA_ANALYSIS PENDING], Suc n)
             else (subtasks, n));
          (subtasks, n) =
            (if sublist ''write'' (lower (task request))
             then (subtasks @ [Subtask_init (uuid4 n) CONTENT_CREATION PENDING], Suc n)
             else (subtasks, n))
      in (subtasks, n))"

text \<open>A subtask draft with its identifier left out, to compare plans up to id generation.\<close>

definition without_id :: "Subtask \<Rightarrow> Subtask" where
  "without_id s = s\<lparr>id_s := []\<rparr>"

section \<open>The store and the submit endpoint\<close>

text \<open>
  Exceptions the endpoints deal in: FastAPI's \<^verbatim>\<open>HTTPException(status_code, detail)\<close>, the
  error \<^verbatim>\<open>redis_client\<close> raises when the server cannot be reached, and
  \<^verbatim>\<open>json.JSONDecodeError\<close>. All three are subclasses of \<^verbatim>\<open>Exception\<close>.
\<close>

datatype exn = HTTPException nat string | ConnectionError | JSONDecodeError

text \<open>
  The process state: the Redis database behind \<^verbatim>\<open>redis_client\<close> (values are the JSON
  documents, kept here as the records they encode) and whether it can be reached, the
  orchestrator's \<^verbatim>\<open>task_queue\<close>, the number of \<^verbatim>\<open>uuid4\<close> calls made, and the ids for
  which \<^verbatim>\<open>asyncio.create_task(orchestrator.execute_task(task_id))\<close> was called. The
  expiry that \<^verbatim>\<open>submit_task\<close> asks Redis for is the store's business: an expired key is
  an absent key.
\<close>

record server =
  redis_up :: bool
  redis_db :: "string \<rightharpoonup> TaskResponse"
  task_queue :: "string list"
  uuid_calls :: nat
  created_tasks :: "string list"

definition task_key :: "string \<Rightarrow> string" where
  "task_key i = ''task:'' @ i"

definition redis_get :: "server \<Rightarrow> string \<Rightarrow> exn + TaskResponse option" where
  "redis_get srv k = (if redis_up srv then Inr (redis_db srv k) else Inl ConnectionError)"

definition redis_set :: "server \<Rightarrow> string \<Rightarrow> TaskResponse \<Rightarrow> exn + server" where
  "redis_set srv k v =
     (if redis_up srv then Inr (srv\<lparr>redis_db := (redis_db srv)(k \<mapsto> v)\<rparr>)
      else Inl ConnectionError)"

text \<open>
  The body of the \<^verbatim>\<open>try\<close> block of \<^verbatim>\<open>submit_task\<close>; \<open>Inl\<close> is the exception raised in
  it. The state is returned in both cases.
\<close>

definition submit_task_try ::
  "(nat \<Rightarrow> string) \<Rightarrow> server \<Rightarrow> TaskRequest \<Rightarrow> (exn + TaskResponse) \<times> server" where
  "submit_task_try uuid4 srv request =
     (if \<not> validate_task request then (Inl (HTTPException 400 ''Invalid task''), srv)
      else
        let new_id = uuid4 (uuid_calls srv);
            (planned, n) = plan_task uuid4 (Suc (uuid_calls srv)) request;
            response = \<lparr>task_id = new_id, status = PENDING, result = None, error = None,
                        progress = 0, subtasks = map Subtask_dict planned\<rparr>;
            srv = srv\<lparr>uuid_calls := n\<rparr>
        in case redis_set srv (task_key new_id) response of
             Inl e \<Rightarrow> (Inl e, srv)
           | Inr srv \<Rightarrow>
               (Inr response,
                srv\<lparr>task_queue := task_queue srv @ [new_id],
                    created_tasks := created_tasks srv @ [new_id]\<rparr>))"

text \<open>
  \<^verbatim>\<open>submit_task\<close> with its handler \<^verbatim>\<open>except Exception as e\<close>, which catches every
  exception of the body, the \<^verbatim>\<open>HTTPException\<close> raised for an invalid task included, and
  raises status 500. \<open>str\<close> is Python's \<^verbatim>\<open>str(e)\<close>, fixed by the libraries' exception
  classes.
\<close>

definition submit_task ::
  "(exn \<Rightarrow> string) \<Rightarrow> (nat \<Rightarrow> string) \<Rightarrow> server \<Rightarrow> TaskRequest
     \<Rightarrow> (exn + TaskResponse) \<times> server" where
  "submit_task str uuid4 srv request =
     (case submit_task_try uuid4 srv request of
        (Inl e, srv') \<Rightarrow> (Inl (HTTPException 500 (''Error submitting task: '' @ str e)), srv')
      | (Inr response, srv') \<Rightarrow> (Inr response, srv'))"

section \<open>Executing a task\<close>

text \<open>
  What an observer of \<^verbatim>\<open>execute_task\<close> can see, each with \<^verbatim>\<open>task.dict()\<close> at that point:
  \<open>Started\<close> is the task in memory while a subtask runs (after its status was set to
  \<^verbatim>\<open>IN_PROGRESS\<close>), \<open>Saved\<close> is the value written to Redis after a subtask has completed,
  \<open>Finished\<close> is the value written after the task's status was set to \<^verbatim>\<open>COMPLETED\<close>.
\<close>

datatype event = Started TaskResponse | Saved TaskResponse | Finished TaskResponse

fun event_task :: "event \<Rightarrow> TaskResponse" where
  "event_task (Started t) = t"
| "event_task (Saved t) = t"
| "event_task (Finished t) = t"

fun is_Started :: "event \<Rightarrow> bool" where
  "is_Started (Started t) = True"
| "is_Started e = False"

text \<open>\<^verbatim>\<open>task.dict()\<close> for a task whose \<^verbatim>\<open>subtasks\<close> hold the \<^verbatim>\<open>Subtask\<close> objects \<open>sts\<close>.\<close>

definition task_dict :: "TaskResponse \<Rightarrow> Subtask list \<Rightarrow> TaskResponse" where
  "task_dict t sts = t\<lparr>subtasks := map Subtask_dict sts\<rparr>"

text \<open>\<^verbatim>\<open>sum(1 for st in task.subtasks if st.status == COMPLETED)\<close>.\<close>

definition completed_count :: "Subtask list \<Rightarrow> nat" where
  "completed_count sts = length (filter (\<lambda>st. status_s st = COMPLETED) sts)"

text \<open>The three assignments that complete a subtask (lines 148 to 150).\<close>

definition complete_subtask :: "Subtask \<Rightarrow> Subtask" where
  "complete_subtask subtask =
     subtask\<lparr>progress_s := 1, status_s := COMPLETED,
             result_s := Some (''Subtask '' @ id_s subtask @ '' completed'')\<rparr>"

text \<open>
  The loop \<^verbatim>\<open>for subtask in task.subtasks\<close>: \<open>visited\<close> are the subtasks already visited,
  the third argument those still to visit. The result is the events in order, the task
  and its subtasks after the loop.
\<close>

fun process_subtasks ::
  "TaskResponse \<Rightarrow> Subtask list \<Rightarrow> Subtask list
     \<Rightarrow> event list \<times> TaskResponse \<times> Subtask list" where
  "process_subtasks t visited [] = ([], t, visited)"
| "process_subtasks t visited (subtask # rest) =
     (if status_s subtask = PENDING then
        let running = subtask\<lparr>status_s := IN_PROGRESS\<rparr>;
            finished = complete_subtask running;
            sts = visited @ finished # rest;
            completed = completed_count sts;
            total = length sts;
            t' = t\<lparr>progress := (if total > 0 then of_nat completed / of_nat total else 0)\<rparr>;
            (evs, out) = process_subtasks t' (visited @ [finished]) rest
        in (Started (task_dict t (visited @ running # rest)) # Saved (task_dict t' sts) # evs, out)
      else process_subtasks t (visited @ [subtask]) rest)"

text \<open>
  Two notions used to state what the loop does: the subtask list once every \<^verbatim>\<open>PENDING\<close>
  subtask has been run, and the value the loop assigns to \<^verbatim>\<open>task.progress\<close> for a given
  list.
\<close>

definition finish_all :: "Subtask list \<Rightarrow> Subtask list" where
  "finish_all sts = map (\<lambda>s. if status_s s = PENDING then complete_subtask (s\<lparr>status_s := IN_PROGRESS\<rparr>) else s) sts"

definition fraction :: "Subtask list \<Rightarrow> rat" where
  "fraction sts = (if length sts > 0 then of_nat (completed_count sts) / of_nat (length sts) else 0)"

text \<open>A Redis write of \<^verbatim>\<open>execute_task\<close> replaces the value under the task's key.\<close>

fun apply_event :: "string \<Rightarrow> (string \<rightharpoonup> TaskResponse) \<Rightarrow> event \<Rightarrow> (string \<rightharpoonup> TaskResponse)" where
  "apply_event k db (Started t) = db"
| "apply_event k db (Saved t) = db(k \<mapsto> t)"
| "apply_event k db (Finished t) = db(k \<mapsto> t)"

text \<open>
  \<^verbatim>\<open>OrchestratorAgent.execute_task\<close>. An unreachable store makes the first
  \<^verbatim>\<open>redis_client.get\<close> raise; reachability is taken not to change during one call. A
  missing key is logged and the call returns.
\<close>

definition execute_task :: "server \<Rightarrow> string \<Rightarrow> exn + event list \<times> server" where
  "execute_task srv i =
     (case redis_get srv (task_key i) of
        Inl e \<Rightarrow> Inl e
      | Inr None \<Rightarrow> Inr ([], srv)
      | Inr (Some t) \<Rightarrow>
          let (evs, t, sts) = process_subtasks t [] (map Subtask_parse (subtasks t));
              evs = (if list_all (\<lambda>st. status_s st = COMPLETED) sts
                     then evs @ [Finished (task_dict (t\<lparr>status := COMPLETED\<rparr>) sts)]
                     else evs)
          in Inr (evs, srv\<lparr>redis_db := foldl (apply_event (task_key i)) (redis_db srv) evs\<rparr>))"

definition events_of :: "server \<Rightarrow> string \<Rightarrow> event list" where
  "events_of srv i = (case execute_task srv i of Inl e \<Rightarrow> [] | Inr (evs, srv') \<Rightarrow> evs)"

definition stored_after :: "server \<Rightarrow> string \<Rightarrow> TaskResponse option" where
  "stored_after srv i =
     (case execute_task srv i of Inl e \<Rightarrow> None | Inr (evs, srv') \<Rightarrow> redis_db srv' (task_key i))"

text \<open>
  The states a task goes through from its submission on: the response stored by
  \<^verbatim>\<open>submit_task\<close>, then the events of the \<^verbatim>\<open>execute_task\<close> call it creates.
\<close>

definition lifetime ::
  "(exn \<Rightarrow> string) \<Rightarrow> (nat \<Rightarrow> string) \<Rightarrow> server \<Rightarrow> TaskRequest \<Rightarrow> TaskResponse list" where
  "lifetime str uuid4 srv request =
     (case submit_task str uuid4 srv request of
        (Inl e, srv') \<Rightarrow> []
      | (Inr response, srv') \<Rightarrow>
          response # map event_task (events_of srv' (task_id response)))"

section \<open>The status endpoint and the client's error classification\<close>

text \<open>The body of the \<^verbatim>\<open>try\<close> block of \<^verbatim>\<open>get_task_status\<close>.\<close>

definition get_task_status_try :: "server \<Rightarrow> string \<Rightarrow> exn + TaskResponse" where
  "get_task_status_try srv i =
     (case redis_get srv (task_key i) of
        Inl e \<Rightarrow> Inl e
      | Inr None \<Rightarrow> Inl (HTTPException 404 ''Task not found'')
      | Inr (Some t) \<Rightarrow> Inr (task_dict t (map Subtask_parse (subtasks t))))"

text \<open>
  \<^verbatim>\<open>get_task_status\<close> with its two handlers: \<^verbatim>\<open>except json.JSONDecodeError\<close>, then
  \<^verbatim>\<open>except Exception as e\<close>, which also catches the \<^verbatim>\<open>HTTPException\<close> with status 404
  raised in the body.
\<close>

definition get_task_status :: "(exn \<Rightarrow> string) \<Rightarrow> server \<Rightarrow> string \<Rightarrow> exn + TaskResponse" where
  "get_task_status str srv i =
     (case get_task_status_try srv i of
        Inl JSONDecodeError \<Rightarrow> Inl (HTTPException 500 ''Invalid task data'')
      | Inl e \<Rightarrow> Inl (HTTPException 500 (str e))
      | Inr t \<Rightarrow> Inr t)"

text \<open>
  The argument of \<^verbatim>\<open>handleApiError\<close> in \<^verbatim>\<open>api.ts\<close>: an axios error carrying a response
  (status, \<^verbatim>\<open>data.detail\<close>, \<^verbatim>\<open>data.message\<close>), one with a request and no response, one
  with neither, or a value that is no axios error.
\<close>

datatype api_error =
  AxiosResponse nat "string option" "string option"
  | AxiosRequest
  | AxiosOther
  | NotAxios

datatype ErrorType =
  SERVER_ERROR | NETWORK_ERROR | REDIS_UNAVAILABLE | VALIDATION_ERROR | UNKNOWN_ERROR

record ApiErrorResponse =
  message :: string
  type_e :: ErrorType
  statusCode :: "nat option"
  retryable :: bool

text \<open>\<^verbatim>\<open>a || b\<close> on an optional string: \<^verbatim>\<open>undefined\<close> and the empty string are falsy.\<close>

definition or_else :: "string option \<Rightarrow> string \<Rightarrow> string" where
  "or_else a b = (case a of None \<Rightarrow> b | Some s \<Rightarrow> if s = [] then b else s)"

text \<open>\<^verbatim>\<open>data.detail?.includes(kw)\<close>, read as a condition.\<close>

definition detail_includes :: "string option \<Rightarrow> string \<Rightarrow> bool" where
  "detail_includes a kw = (case a of None \<Rightarrow> False | Some s \<Rightarrow> sublist kw s)"

definition handleApiError :: "api_error \<Rightarrow> string \<Rightarrow> ApiErrorResponse" where
  "handleApiError err defaultMessage =
     (case err of
        AxiosResponse code detail msg \<Rightarrow>
          if code = 503 \<and> (detail_includes detail ''Storage service'' \<or> detail_includes detail ''Redis'')
          then \<lparr>message = ''Storage service is temporarily unavailable. Some features may be limited.'',
                type_e = REDIS_UNAVAILABLE, statusCode = Some code, retryable = True\<rparr>
          else if code = 400
          then \<lparr>message = or_else detail ''Invalid request parameters'',
                type_e = VALIDATION_ERROR, statusCode = Some code, retryable = False\<rparr>
          else if code \<ge> 500
          then \<lparr>message = or_else detail ''Server error occurred. Please try again later.'',
                type_e = SERVER_ERROR, statusCode = Some code, retryable = True\<rparr>
          else \<lparr>message = or_else detail (or_else msg defaultMessage),
                type_e = UNKNOWN_ERROR, statusCode = Some code, retryable = (code < 500)\<rparr>
      | AxiosRequest \<Rightarrow>
          \<lparr>message = ''No response received from server. Please check your connection and try again.'',
           type_e = NETWORK_ERROR, statusCode = None, retryable = True\<rparr>
      | AxiosOther \<Rightarrow>
          \<lparr>message = defaultMessage, type_e = UNKNOWN_ERROR, statusCode = None, retryable = False\<rparr>
      | NotAxios \<Rightarrow>
          \<lparr>message = defaultMessage, type_e = UNKNOWN_ERROR, statusCode = None, retryable = False\<rparr>)"

text \<open>
  What the client's axios call receives for an endpoint's outcome: FastAPI answers an
  \<^verbatim>\<open>HTTPException\<close> with its status code and the body \<^verbatim>\<open>{"detail": detail}\<close>, any other
  exception that leaves an endpoint with status 500 and no JSON detail; a returned value is
  no error.
\<close>

fun axios_error_of :: "exn + TaskResponse \<Rightarrow> api_error option" where
  "axios_error_of (Inl (HTTPException code detail)) = Some (AxiosResponse code (Some detail) None)"
| "axios_error_of (Inl e) = Some (AxiosResponse 500 None None)"
| "axios_error_of (Inr t) = None"

section \<open>Local replay playback in the TaskReplay component\<close>
















section \<open>Example inputs\<close>

definition example_uuid4 :: "nat \<Rightarrow> string" where
  "example_uuid4 k = replicate (Suc k) (CHR ''u'')"

definition example_request :: "string \<Rightarrow> TaskRequest" where
  "example_request d = \<lparr>task = d, context_d = [], priority = 1, agent_type = None\<rparr>"

definition server0 :: server where
  "server0 = \<lparr>redis_up = True, redis_db = Map.empty, task_queue = [], uuid_calls = 0,
              created_tasks = []\<rparr>"

fun example_str :: "exn \<Rightarrow> string" where
  "example_str (HTTPException code detail) = detail"
| "example_str ConnectionError = ''Error connecting to Redis''"
| "example_str JSONDecodeError = ''Expecting value''"

text \<open>
  The state after one submission to the fresh server; the task's id is the first
  identifier of \<open>example_uuid4\<close>, \<open>''u''\<close>.
\<close>

definition submitted :: "string \<Rightarrow> server" where
  "submitted d = snd (submit_task example_str example_uuid4 server0 (example_request d))"



section \<open>Facts about the planner\<close>

lemma states_distinct [simp]:
  "PENDING \<noteq> IN_PROGRESS" "PENDING \<noteq> COMPLETED" "PENDING \<noteq> FAILED"
  "IN_PROGRESS \<noteq> PENDING" "IN_PROGRESS \<noteq> COMPLETED" "IN_PROGRESS \<noteq> FAILED"
  "COMPLETED \<noteq> PENDING" "COMPLETED \<noteq> IN_PROGRESS" "COMPLETED \<noteq> FAILED"
  "FAILED \<noteq> PENDING" "FAILED \<noteq> IN_PROGRESS" "FAILED \<noteq> COMPLETED"
  by (simp_all add: PENDING_def IN_PROGRESS_def COMPLETED_def FAILED_def)

lemma types_distinct [simp]:
  "WEB_RESEARCH \<noteq> CODE_GENERATION" "WEB_RESEARCH \<noteq> DATA_ANALYSIS"
  "WEB_RESEARCH \<noteq> CONTENT_CREATION" "CODE_GENERATION \<noteq> WEB_RESEARCH"
  "CODE_GENERATION \<noteq> DATA_ANALYSIS" "CODE_GENERATION \<noteq> CONTENT_CREATION"
  "DATA_ANALYSIS \<noteq> WEB_RESEARCH" "DATA_ANALYSIS \<noteq> CODE_GENERATION"
  "DATA_ANALYSIS \<noteq> CONTENT_CREATION" "CONTENT_CREATION \<noteq> WEB_RESEARCH"
  "CONTENT_CREATION \<noteq> CODE_GENERATION" "CONTENT_CREATION \<noteq> DATA_ANALYSIS"
  by (simp_all add: WEB_RESEARCH_def CODE_GENERATION_def DATA_ANALYSIS_def
      CONTENT_CREATION_def)

lemma lower_keywords:
  "lower ''research'' = ''research''" "lower ''code'' = ''code''"
  "lower ''analyze'' = ''analyze''" "lower ''write'' = ''write''"
  by code_simp+

lemma sublist_lower: "sublist kw s \<Longrightarrow> sublist (lower kw) (lower s)"
  unfolding lower_def by (rule map_mono_sublist)

lemma plan_task_types:
  "map type_s (fst (plan_task uuid4 n request)) =
     (if sublist ''research'' (lower (task request)) then [WEB_RESEARCH] else []) @
     (if sublist ''code'' (lower (task request)) then [CODE_GENERATION] else []) @
     (if sublist ''analyze'' (lower (task request)) then [DATA_ANALYSIS] else []) @
     (if sublist ''write'' (lower (task request)) then [CONTENT_CREATION] else [])"
  by (simp add: plan_task_def Subtask_init_def)

lemma plan_task_init:
  "s \<in> set (fst (plan_task uuid4 n request)) \<Longrightarrow>
     status_s s = PENDING \<and> progress_s s = 0 \<and> result_s s = None \<and> error_s s = None"
  by (auto simp: plan_task_def Subtask_init_def split: if_splits)

lemma plan_task_without_id:
  "map without_id (fst (plan_task uuid4 n request)) =
     map without_id (fst (plan_task uuid4' n' request))"
  by (simp add: plan_task_def Subtask_init_def without_id_def)

section \<open>Facts about the subtask loop\<close>

lemma finish_all_simps [simp]:
  "finish_all [] = []"
  "finish_all (s # sts) =
     (if status_s s = PENDING then complete_subtask (s\<lparr>status_s := IN_PROGRESS\<rparr>) else s) # finish_all sts"
  by (simp_all add: finish_all_def)

lemma finish_all_id: "\<forall>s\<in>set sts. status_s s \<noteq> PENDING \<Longrightarrow> finish_all sts = sts"
  by (induction sts) auto

lemma length_finish_all [simp]: "length (finish_all sts) = length sts"
  by (simp add: finish_all_def)

lemma status_complete_subtask [simp]: "status_s (complete_subtask s) = COMPLETED"
  by (simp add: complete_subtask_def)

lemma finish_all_completed:
  "\<forall>s\<in>set sts. status_s s = PENDING \<or> status_s s = COMPLETED \<Longrightarrow>
     \<forall>s\<in>set (finish_all sts). status_s s = COMPLETED"
  by (induction sts) auto

lemma process_subtasks_final:
  "snd (snd (process_subtasks t visited todo)) = visited @ finish_all todo"
  by (induction todo arbitrary: t visited) (auto simp: Let_def split_beta)

lemma process_subtasks_event_status:
  "e \<in> set (fst (process_subtasks t visited todo)) \<Longrightarrow> status (event_task e) = status t"
  by (induction todo arbitrary: t visited) (auto simp: Let_def task_dict_def split_beta split: if_splits)

lemma process_subtasks_no_Finished:
  "Finished x \<notin> set (fst (process_subtasks t visited todo))"
  by (induction todo arbitrary: t visited) (auto simp: Let_def task_dict_def split_beta split: if_splits)

lemma process_subtasks_progress:
  "progress (fst (snd (process_subtasks t visited todo))) =
     (if \<exists>s\<in>set todo. status_s s = PENDING then fraction (visited @ finish_all todo) else progress t)"
proof (induction todo arbitrary: t visited)
  case Nil
  then show ?case by simp
next
  case (Cons s rest)
  show ?case
  proof (cases "status_s s = PENDING")
    case True
    then show ?thesis
      using Cons.IH
      by (auto simp: Let_def fraction_def split_beta finish_all_id)
  next
    case False
    then show ?thesis using Cons.IH by auto
  qed
qed

lemma process_subtasks_Started_iff:
  "(\<exists>e\<in>set (fst (process_subtasks t visited todo)). is_Started e) \<longleftrightarrow> (\<exists>s\<in>set todo. status_s s = PENDING)"
  by (induction todo arbitrary: t visited) (auto simp: Let_def split_beta)

lemma completed_count_append:
  "completed_count (xs @ ys) = completed_count xs + completed_count ys"
  by (simp add: completed_count_def)

lemma completed_count_Cons:
  "completed_count (s # ys) = (if status_s s = COMPLETED then 1 else 0) + completed_count ys"
  by (simp add: completed_count_def)

lemma fraction_step:
  "status_s s \<noteq> COMPLETED \<Longrightarrow>
     fraction (visited @ s # rest) \<le> fraction (visited @ complete_subtask s' # rest)"
  by (simp add: fraction_def divide_right_mono completed_count_append completed_count_Cons)

lemma fraction_all_completed:
  "sts \<noteq> [] \<Longrightarrow> \<forall>s\<in>set sts. status_s s = COMPLETED \<Longrightarrow> fraction sts = 1"
proof -
  assume a: "sts \<noteq> []" "\<forall>s\<in>set sts. status_s s = COMPLETED"
  then have "filter (\<lambda>st. status_s st = COMPLETED) sts = sts" by simp
  then have "completed_count sts = length sts" by (simp add: completed_count_def)
  with a show ?thesis by (simp add: fraction_def)
qed

lemma process_subtasks_pending:
  "status_s s = PENDING \<Longrightarrow>
     process_subtasks t visited (s # rest) =
       (Started (task_dict t (visited @ s\<lparr>status_s := IN_PROGRESS\<rparr> # rest)) #
        Saved (task_dict (t\<lparr>progress := fraction (visited @ complete_subtask (s\<lparr>status_s := IN_PROGRESS\<rparr>) # rest)\<rparr>)
                 (visited @ complete_subtask (s\<lparr>status_s := IN_PROGRESS\<rparr>) # rest)) #
        fst (process_subtasks
               (t\<lparr>progress := fraction (visited @ complete_subtask (s\<lparr>status_s := IN_PROGRESS\<rparr>) # rest)\<rparr>)
               (visited @ [complete_subtask (s\<lparr>status_s := IN_PROGRESS\<rparr>)]) rest),
        snd (process_subtasks
               (t\<lparr>progress := fraction (visited @ complete_subtask (s\<lparr>status_s := IN_PROGRESS\<rparr>) # rest)\<rparr>)
               (visited @ [complete_subtask (s\<lparr>status_s := IN_PROGRESS\<rparr>)]) rest))"
  by (simp add: Let_def split_beta fraction_def)

lemma process_subtasks_other:
  "status_s s \<noteq> PENDING \<Longrightarrow>
     process_subtasks t visited (s # rest) = process_subtasks t (visited @ [s]) rest"
  by simp

lemma process_subtasks_bound:
  "progress t \<le> fraction (visited @ todo) \<Longrightarrow>
     progress t \<le> progress (fst (snd (process_subtasks t visited todo))) \<and>
     (\<forall>e\<in>set (fst (process_subtasks t visited todo)).
        progress (event_task e) \<le> progress (fst (snd (process_subtasks t visited todo))))"
proof (induction todo arbitrary: t visited)
  case Nil
  then show ?case by simp
next
  case (Cons s rest)
  show ?case
  proof (cases "status_s s = PENDING")
    case True
    let ?fin = "complete_subtask (s\<lparr>status_s := IN_PROGRESS\<rparr>)"
    let ?t' = "t\<lparr>progress := fraction (visited @ ?fin # rest)\<rparr>"
    have "fraction (visited @ s # rest) \<le> fraction (visited @ ?fin # rest)"
      using True by (intro fraction_step) simp
    with Cons.prems have le: "progress t \<le> progress ?t'" by simp
    have "progress ?t' \<le> fraction ((visited @ [?fin]) @ rest)" by simp
    from Cons.IH [OF this] le show ?thesis
      unfolding process_subtasks_pending [OF True]
      by (auto simp: task_dict_def)
  next
    case False
    then show ?thesis
      using Cons.IH [of t "visited @ [s]"] Cons.prems
      by (simp del: process_subtasks.simps add: process_subtasks_other)
  qed
qed

lemma process_subtasks_sorted:
  "progress t \<le> fraction (visited @ todo) \<Longrightarrow>
     sorted (progress t # map (\<lambda>e. progress (event_task e)) (fst (process_subtasks t visited todo)))"
proof (induction todo arbitrary: t visited)
  case Nil
  then show ?case by simp
next
  case (Cons s rest)
  show ?case
  proof (cases "status_s s = PENDING")
    case True
    let ?fin = "complete_subtask (s\<lparr>status_s := IN_PROGRESS\<rparr>)"
    let ?t' = "t\<lparr>progress := fraction (visited @ ?fin # rest)\<rparr>"
    have "fraction (visited @ s # rest) \<le> fraction (visited @ ?fin # rest)"
      using True by (intro fraction_step) simp
    with Cons.prems have le: "progress t \<le> progress ?t'" by simp
    have "progress ?t' \<le> fraction ((visited @ [?fin]) @ rest)" by simp
    from Cons.IH [OF this] le show ?thesis
      unfolding process_subtasks_pending [OF True]
      by (auto simp: task_dict_def)
  next
    case False
    then show ?thesis
      using Cons.IH [of t "visited @ [s]"] Cons.prems
      by (simp del: process_subtasks.simps add: process_subtasks_other)
  qed
qed


section \<open>Facts about the endpoints\<close>

lemma execute_task_found:
  assumes "redis_up srv" "redis_db srv (task_key i) = Some t"
  shows "events_of srv i =
           fst (process_subtasks t [] (map Subtask_parse (subtasks t))) @
           (if list_all (\<lambda>st. status_s st = COMPLETED) (finish_all (map Subtask_parse (subtasks t)))
            then [Finished (task_dict (fst (snd (process_subtasks t [] (map Subtask_parse (subtasks t))))\<lparr>status := COMPLETED\<rparr>)
                                      (finish_all (map Subtask_parse (subtasks t))))]
            else [])"
    and "stored_after srv i = foldl (apply_event (task_key i)) (redis_db srv) (events_of srv i) (task_key i)"
  using assms process_subtasks_final [of t "[]" "map Subtask_parse (subtasks t)"]
  by (simp_all add: events_of_def stored_after_def execute_task_def redis_get_def Let_def split_beta)

lemma submit_task_Inr:
  assumes "submit_task str uuid4 srv request = (Inr response, srv')"
  shows "redis_up srv'" "redis_db srv' (task_key (task_id response)) = Some response"
    "status response = PENDING" "progress response = 0"
    "subtasks response = map Subtask_dict (fst (plan_task uuid4 (Suc (uuid_calls srv)) request))"
  using assms
  by (auto simp: submit_task_def submit_task_try_def redis_set_def Let_def split_beta
      split: if_splits sum.splits prod.splits)

lemma Subtask_parse_dict [simp]: "Subtask_parse (Subtask_dict s) = s"
  by (simp add: Subtask_parse_def Subtask_dict_def)

lemma status_s_Subtask_dict [simp]: "status_s (Subtask_dict s) = status_s s"
  by (simp add: Subtask_dict_def)

lemma status_s_Subtask_parse [simp]: "status_s (Subtask_parse d) = status_s d"
  by (simp add: Subtask_parse_def)


lemma events_status:
  assumes "redis_up srv" "redis_db srv (task_key i) = Some t" "e \<in> set (events_of srv i)"
  shows "status (event_task e) = (case e of Finished x \<Rightarrow> COMPLETED | _ \<Rightarrow> status t)"
proof -
  let ?sts = "map Subtask_parse (subtasks t)"
  from assms(3) consider "e \<in> set (fst (process_subtasks t [] ?sts))"
    | x where "e = Finished x" "status x = COMPLETED"
    unfolding execute_task_found(1) [OF assms(1,2)]
    by (auto simp: task_dict_def split: if_splits)
  then show ?thesis
  proof cases
    case 1
    from process_subtasks_event_status [OF 1] process_subtasks_no_Finished [of _ t "[]" ?sts] 1
    show ?thesis by (cases e) auto
  next
    case 2
    then show ?thesis by simp
  qed
qed

lemma fraction_nonneg: "0 \<le> fraction sts"
  by (simp add: fraction_def)

lemma events_of_nonempty:
  "e \<in> set (events_of srv i) \<Longrightarrow> redis_up srv \<and> (\<exists>t. redis_db srv (task_key i) = Some t)"
  by (auto simp: events_of_def execute_task_def redis_get_def split: if_splits option.splits)

lemma events_sorted:
  assumes up: "redis_up srv" and stored: "redis_db srv (task_key i) = Some t"
    and inv: "progress t \<le> fraction (map Subtask_parse (subtasks t))"
  shows "sorted (progress t # map (\<lambda>e. progress (event_task e)) (events_of srv i))"
proof -
  let ?sts = "map Subtask_parse (subtasks t)"
  let ?p = "process_subtasks t [] ?sts"
  from inv have inv': "progress t \<le> fraction ([] @ ?sts)" by simp
  note s = process_subtasks_sorted [OF inv'] and b = process_subtasks_bound [OF inv']
  show ?thesis
    unfolding execute_task_found(1) [OF up stored]
    using s b by (auto simp: sorted_append task_dict_def)
qed

lemma lifetime_sorted: "sorted (map progress (lifetime str uuid4 srv request))"
proof (cases "submit_task str uuid4 srv request")
  case (Pair res srv')
  show ?thesis
  proof (cases res)
    case (Inl e)
    with Pair show ?thesis by (simp add: lifetime_def)
  next
    case (Inr response)
    note sub = submit_task_Inr [OF Pair [unfolded Inr]]
    have "progress response \<le> fraction (map Subtask_parse (subtasks response))"
      using sub(4) fraction_nonneg by simp
    from events_sorted [OF sub(1) sub(2) this] Pair Inr show ?thesis
      by (simp add: lifetime_def comp_def)
  qed
qed


lemma submit_task_fst_Inr:
  assumes "fst (submit_task str uuid4 srv request) = Inr response"
  shows "redis_up (snd (submit_task str uuid4 srv request))"
    "redis_db (snd (submit_task str uuid4 srv request)) (task_key (task_id response)) = Some response"
    "status response = PENDING" "progress response = 0"
    "subtasks response = map Subtask_dict (fst (plan_task uuid4 (Suc (uuid_calls srv)) request))"
  using assms submit_task_Inr [of str uuid4 srv request response "snd (submit_task str uuid4 srv request)"]
  by (cases "submit_task str uuid4 srv request"; simp)+

lemma lifetime_status:
  "x \<in> set (lifetime str uuid4 srv request) \<Longrightarrow> status x = PENDING \<or> status x = COMPLETED"
proof (cases "submit_task str uuid4 srv request")
  case (Pair res srv')
  assume x: "x \<in> set (lifetime str uuid4 srv request)"
  show ?thesis
  proof (cases res)
    case (Inl e)
    with Pair x show ?thesis by (simp add: lifetime_def)
  next
    case (Inr response)
    note sub = submit_task_Inr [OF Pair [unfolded Inr]]
    from x Pair Inr consider "x = response"
      | e where "e \<in> set (events_of srv' (task_id response))" "x = event_task e"
      by (auto simp: lifetime_def)
    then show ?thesis
    proof cases
      case 1
      with sub(3) show ?thesis by simp
    next
      case 2
      from events_status [OF sub(1) sub(2) 2(1)] sub(3) 2(2) show ?thesis
        by (cases e) auto
    qed
  qed
qed

lemma Subtask_parse_dependencies [simp]:
  "Subtask_parse (d\<lparr>dependencies := ds\<rparr>) = Subtask_parse d"
  by (simp add: Subtask_parse_def)

lemma process_subtasks_subtasks_field:
  "fst (process_subtasks (t\<lparr>subtasks := x\<rparr>) visited todo) = fst (process_subtasks t visited todo) \<and>
   fst (snd (process_subtasks (t\<lparr>subtasks := x\<rparr>) visited todo)) =
     (fst (snd (process_subtasks t visited todo)))\<lparr>subtasks := x\<rparr>"
proof (induction todo arbitrary: t visited)
  case Nil
  then show ?case by simp
next
  case (Cons s rest)
  show ?case
  proof (cases "status_s s = PENDING")
    case True
    let ?f = "fraction (visited @ complete_subtask (s\<lparr>status_s := IN_PROGRESS\<rparr>) # rest)"
    have eq: "t\<lparr>subtasks := x, progress := ?f\<rparr> = t\<lparr>progress := ?f, subtasks := x\<rparr>" by simp
    show ?thesis
      unfolding process_subtasks_pending [OF True] eq
      using Cons.IH [where t = "t\<lparr>progress := ?f\<rparr>"]
      by (simp add: task_dict_def)
  next
    case False
    then show ?thesis
      using Cons.IH [where t = t and visited = "visited @ [s]"]
      by (simp del: process_subtasks.simps add: process_subtasks_other)
  qed
qed

lemma events_ignore_dependencies:
  assumes up: "redis_up srv" and stored: "redis_db srv (task_key i) = Some t"
  shows "events_of (srv\<lparr>redis_db := (redis_db srv)(task_key i \<mapsto>
             t\<lparr>subtasks := map (\<lambda>d. d\<lparr>dependencies := deps d\<rparr>) (subtasks t)\<rparr>)\<rparr>) i =
         events_of srv i"
proof -
  let ?x = "map (\<lambda>d. d\<lparr>dependencies := deps d\<rparr>) (subtasks t)"
  let ?t = "t\<lparr>subtasks := ?x\<rparr>"
  let ?srv = "srv\<lparr>redis_db := (redis_db srv)(task_key i \<mapsto> ?t)\<rparr>"
  have up': "redis_up ?srv" using up by simp
  have stored': "redis_db ?srv (task_key i) = Some ?t" by simp
  have parse: "map Subtask_parse (subtasks ?t) = map Subtask_parse (subtasks t)" by simp
  note f = process_subtasks_subtasks_field [where t = t and x = ?x and visited = "[]"
      and todo = "map Subtask_parse (subtasks t)"]
  show ?thesis
    unfolding execute_task_found(1) [OF up' stored'] execute_task_found(1) [OF up stored] parse
    using f by (simp add: task_dict_def)
qed

lemma events_not_FAILED:
  assumes "redis_up srv" "redis_db srv (task_key i) = Some t" "status t \<noteq> FAILED"
    "e \<in> set (events_of srv i)"
  shows "status (event_task e) \<noteq> FAILED"
  using events_status [OF assms(1,2,4)] assms(3) by (cases e) auto

lemma submit_task_no_dependencies:
  assumes "fst (submit_task str uuid4 srv request) = Inr response"
  shows "d \<in> set (subtasks response) \<Longrightarrow> dependencies d = []"
  using submit_task_fst_Inr(5) [OF assms] by (auto simp: Subtask_dict_def)

lemma Finished_event:
  assumes up: "redis_up srv" and stored: "redis_db srv (task_key i) = Some t"
    and fin: "Finished t' \<in> set (events_of srv i)"
  shows "\<forall>d\<in>set (subtasks t'). status_s d = COMPLETED"
    and "length (subtasks t') = length (subtasks t)"
    and "(\<exists>e\<in>set (events_of srv i). is_Started e) \<longrightarrow> progress t' = 1"
    and "\<not> (\<exists>e\<in>set (events_of srv i). is_Started e) \<longrightarrow> progress t' = progress t"
    and "(\<exists>e\<in>set (events_of srv i). is_Started e) \<longleftrightarrow> (\<exists>d\<in>set (subtasks t). status_s d = PENDING)"
proof -
  let ?sts = "map Subtask_parse (subtasks t)"
  let ?p = "process_subtasks t [] ?sts"
  let ?fin = "task_dict (fst (snd ?p)\<lparr>status := COMPLETED\<rparr>) (finish_all ?sts)"
  from fin have la: "list_all (\<lambda>st. status_s st = COMPLETED) (finish_all ?sts)" and t': "t' = ?fin"
    unfolding execute_task_found(1) [OF up stored]
    using process_subtasks_no_Finished [of t' t "[]" ?sts]
    by (auto split: if_splits)
  show "\<forall>d\<in>set (subtasks t'). status_s d = COMPLETED"
    using la by (simp add: t' task_dict_def list_all_iff)
  show "length (subtasks t') = length (subtasks t)"
    by (simp add: t' task_dict_def)
  have started: "(\<exists>e\<in>set (events_of srv i). is_Started e) \<longleftrightarrow> (\<exists>s\<in>set ?sts. status_s s = PENDING)"
    unfolding execute_task_found(1) [OF up stored]
    using process_subtasks_Started_iff [of t "[]" ?sts] by (auto split: if_splits)
  then show "(\<exists>e\<in>set (events_of srv i). is_Started e) \<longleftrightarrow> (\<exists>d\<in>set (subtasks t). status_s d = PENDING)"
    by simp
  show "(\<exists>e\<in>set (events_of srv i). is_Started e) \<longrightarrow> progress t' = 1"
  proof
    assume "\<exists>e\<in>set (events_of srv i). is_Started e"
    with started have some: "\<exists>s\<in>set ?sts. status_s s = PENDING" by simp
    then have ne: "finish_all ?sts \<noteq> []" by (auto simp: finish_all_def)
    from la have "\<forall>s\<in>set (finish_all ?sts). status_s s = COMPLETED" by (simp add: list_all_iff)
    from fraction_all_completed [OF ne this] process_subtasks_progress [of t "[]" ?sts] some
    show "progress t' = 1" by (simp add: t' task_dict_def)
  qed
  show "\<not> (\<exists>e\<in>set (events_of srv i). is_Started e) \<longrightarrow> progress t' = progress t"
  proof
    assume "\<not> (\<exists>e\<in>set (events_of srv i). is_Started e)"
    with started have "\<not> (\<exists>s\<in>set ?sts. status_s s = PENDING)" by simp
    with process_subtasks_progress [of t "[]" ?sts] show "progress t' = progress t"
      by (simp add: t' task_dict_def)
  qed
qed

lemma completed_event:
  assumes up: "redis_up srv" and stored: "redis_db srv (task_key i) = Some t"
    and nc: "status t \<noteq> COMPLETED"
    and e: "e \<in> set (events_of srv i)" and c: "status (event_task e) = COMPLETED"
  shows "(\<forall>d\<in>set (subtasks (event_task e)). status_s d = COMPLETED) \<and>
         ((\<exists>e'\<in>set (events_of srv i). is_Started e') \<longrightarrow> progress (event_task e) = 1) \<and>
         (\<not> (\<exists>e'\<in>set (events_of srv i). is_Started e') \<longrightarrow> progress (event_task e) = progress t)"
proof -
  from events_status [OF up stored e] c nc obtain x where x: "e = Finished x"
    by (cases e) auto
  with e have "Finished x \<in> set (events_of srv i)" by simp
  from Finished_event(1,3,4) [OF up stored this] x show ?thesis by simp
qed

lemma completed_lifetime_state:
  assumes x: "x \<in> set (lifetime str uuid4 srv0 request)" and c: "status x = COMPLETED"
  shows "(\<forall>d\<in>set (subtasks x). status_s d = COMPLETED) \<and>
         (subtasks x \<noteq> [] \<longrightarrow> progress x = 1) \<and> (subtasks x = [] \<longrightarrow> progress x = 0)"
proof (cases "submit_task str uuid4 srv0 request")
  case (Pair res srv')
  show ?thesis
  proof (cases res)
    case (Inl err)
    with Pair x show ?thesis by (simp add: lifetime_def)
  next
    case (Inr response)
    note sub = submit_task_Inr [OF Pair [unfolded Inr]]
    have pend: "\<forall>d\<in>set (subtasks response). status_s d = PENDING"
      using sub(5) plan_task_init by auto
    from x Pair Inr c sub(3) obtain e where
      e: "e \<in> set (events_of srv' (task_id response))" and xe: "x = event_task e"
      by (auto simp: lifetime_def)
    have nc: "status response \<noteq> COMPLETED" using sub(3) by simp
    from events_status [OF sub(1) sub(2) e] c nc xe obtain y where y: "e = Finished y"
      by (cases e) auto
    with e have f: "Finished x \<in> set (events_of srv' (task_id response))" using xe by simp
    note F = Finished_event [OF sub(1) sub(2) f]
    have ne: "subtasks x \<noteq> [] \<longleftrightarrow> (\<exists>d\<in>set (subtasks response). status_s d = PENDING)"
    proof -
      have "subtasks x \<noteq> [] \<longleftrightarrow> subtasks response \<noteq> []"
        using F(2) by (metis length_0_conv)
      also have "\<dots> \<longleftrightarrow> (\<exists>d\<in>set (subtasks response). status_s d = PENDING)"
        using pend by (cases "subtasks response") auto
      finally show ?thesis .
    qed
    from F(1) F(3) F(4) F(5) ne sub(4) show ?thesis by auto
  qed
qed

section \<open>Facts about the replay component\<close>





section \<open>The planner's contract\<close>

text \<open>
  Claim C5. \<^verbatim>\<open>plan_task\<close> returns the empty list only if none of the keywords
  \<^verbatim>\<open>research\<close>, \<^verbatim>\<open>code\<close>, \<^verbatim>\<open>analyze\<close>, \<^verbatim>\<open>write\<close> occurs in the lower-cased description;
  when a keyword occurs in the description (as written, or after lower-casing) the plan
  holds a subtask of the matching capability type; and two runs on the same request
  differ at most in the identifiers drawn from \<^verbatim>\<open>uuid4\<close>.
\<close>

theorem C5_planner_keywords:
  "(fst (plan_task uuid4 n request) = [] \<longrightarrow>
      \<not> sublist ''research'' (lower (task request)) \<and> \<not> sublist ''code'' (lower (task request)) \<and>
      \<not> sublist ''analyze'' (lower (task request)) \<and> \<not> sublist ''write'' (lower (task request))) \<and>
   (sublist ''research'' (task request) \<or> sublist ''research'' (lower (task request)) \<longrightarrow>
      WEB_RESEARCH \<in> set (map type_s (fst (plan_task uuid4 n request)))) \<and>
   (sublist ''code'' (task request) \<or> sublist ''code'' (lower (task request)) \<longrightarrow>
      CODE_GENERATION \<in> set (map type_s (fst (plan_task uuid4 n request)))) \<and>
   (sublist ''analyze'' (task request) \<or> sublist ''analyze'' (lower (task request)) \<longrightarrow>
      DATA_ANALYSIS \<in> set (map type_s (fst (plan_task uuid4 n request)))) \<and>
   (sublist ''write'' (task request) \<or> sublist ''write'' (lower (task request)) \<longrightarrow>
      CONTENT_CREATION \<in> set (map type_s (fst (plan_task uuid4 n request)))) \<and>
   map without_id (fst (plan_task uuid4 n request)) =
     map without_id (fst (plan_task uuid4' n' request))"
proof -
  have empty: "fst (plan_task uuid4 n request) = [] \<longrightarrow>
      \<not> sublist ''research'' (lower (task request)) \<and> \<not> sublist ''code'' (lower (task request)) \<and>
      \<not> sublist ''analyze'' (lower (task request)) \<and> \<not> sublist ''write'' (lower (task request))"
    by (simp add: plan_task_def)
  have lit: "sublist kw (task request) \<Longrightarrow> lower kw = kw \<Longrightarrow> sublist kw (lower (task request))" for kw
    using sublist_lower [of kw "task request"] by simp
  have r: "sublist ''research'' (task request) \<or> sublist ''research'' (lower (task request)) \<longrightarrow>
      WEB_RESEARCH \<in> set (map type_s (fst (plan_task uuid4 n request)))"
    using lit [of "''research''"] lower_keywords(1) by (auto simp: plan_task_types)
  have c: "sublist ''code'' (task request) \<or> sublist ''code'' (lower (task request)) \<longrightarrow>
      CODE_GENERATION \<in> set (map type_s (fst (plan_task uuid4 n request)))"
    using lit [of "''code''"] lower_keywords(2) by (auto simp: plan_task_types)
  have a: "sublist ''analyze'' (task request) \<or> sublist ''analyze'' (lower (task request)) \<longrightarrow>
      DATA_ANALYSIS \<in> set (map type_s (fst (plan_task uuid4 n request)))"
    using lit [of "''analyze''"] lower_keywords(3) by (auto simp: plan_task_types)
  have w: "sublist ''write'' (task request) \<or> sublist ''write'' (lower (task request)) \<longrightarrow>
      CONTENT_CREATION \<in> set (map type_s (fst (plan_task uuid4 n request)))"
    using lit [of "''write''"] lower_keywords(4) by (auto simp: plan_task_types)
  from empty r c a w plan_task_without_id [of uuid4 n request uuid4' n'] show ?thesis by blast
qed

theorem C5_planner_keywords_witness:
  "fst (plan_task example_uuid4 0 (example_request ''hello'')) = [] \<and>
   \<not> sublist ''research'' (lower ''hello'') \<and> \<not> sublist ''code'' (lower ''hello'') \<and>
   \<not> sublist ''analyze'' (lower ''hello'') \<and> \<not> sublist ''write'' (lower ''hello'') \<and>
   sublist ''research'' (lower ''Research, code, ANALYZE and Write'') \<and>
   sublist ''code'' ''Research, code, ANALYZE and Write'' \<and>
   sublist ''analyze'' (lower ''Research, code, ANALYZE and Write'') \<and>
   sublist ''write'' (lower ''Research, code, ANALYZE and Write'') \<and>
   set (map type_s (fst (plan_task example_uuid4 0
          (example_request ''Research, code, ANALYZE and Write'')))) =
     {WEB_RESEARCH, CODE_GENERATION, DATA_ANALYSIS, CONTENT_CREATION}"
proof -
  let ?d = "''Research, code, ANALYZE and Write''"
  have e: "fst (plan_task example_uuid4 0 (example_request ''hello'')) = []" by code_simp
  have t: "task (example_request ''hello'') = ''hello''" "task (example_request ?d) = ?d"
    by (simp_all add: example_request_def)
  have k: "sublist ''research'' (lower ?d)" "sublist ''code'' ?d"
    "sublist ''analyze'' (lower ?d)" "sublist ''write'' (lower ?d)"
    by code_simp+
  have len: "length (fst (plan_task example_uuid4 0 (example_request ?d))) = 4" by code_simp
  note h = C5_planner_keywords [of example_uuid4 0 "example_request ''hello''" example_uuid4 0]
  note g = C5_planner_keywords [of example_uuid4 0 "example_request ?d" example_uuid4 0]
  have sub: "set (map type_s (fst (plan_task example_uuid4 0 (example_request ?d))))
          \<subseteq> {WEB_RESEARCH, CODE_GENERATION, DATA_ANALYSIS, CONTENT_CREATION}"
    by (auto simp: plan_task_types)
  from g k t have "{WEB_RESEARCH, CODE_GENERATION, DATA_ANALYSIS, CONTENT_CREATION}
     \<subseteq> set (map type_s (fst (plan_task example_uuid4 0 (example_request ?d))))"
    by simp
  with sub have eq: "set (map type_s (fst (plan_task example_uuid4 0 (example_request ?d)))) =
     {WEB_RESEARCH, CODE_GENERATION, DATA_ANALYSIS, CONTENT_CREATION}" by blast
  from h e t have "\<not> sublist ''research'' (lower ''hello'') \<and> \<not> sublist ''code'' (lower ''hello'') \<and>
   \<not> sublist ''analyze'' (lower ''hello'') \<and> \<not> sublist ''write'' (lower ''hello'')" by simp
  with e k eq show ?thesis by simp
qed

text \<open>
  Claim C10. Every subtask draft of \<^verbatim>\<open>plan_task\<close> has status \<^verbatim>\<open>PENDING\<close>, progress 0 and
  neither result nor error; the capability types of a plan are pairwise different, so a
  plan has at most four subtasks.
\<close>

theorem C10_planner_drafts:
  "(\<forall>s\<in>set (fst (plan_task uuid4 n request)).
      status_s s = PENDING \<and> progress_s s = 0 \<and> result_s s = None \<and> error_s s = None) \<and>
   distinct (map type_s (fst (plan_task uuid4 n request))) \<and>
   length (fst (plan_task uuid4 n request)) \<le> 4"
proof -
  have "distinct (map type_s (fst (plan_task uuid4 n request)))"
    by (simp add: plan_task_types)
  moreover have "length (fst (plan_task uuid4 n request)) \<le> 4"
    by (simp add: plan_task_def)
  ultimately show ?thesis using plan_task_init by blast
qed

theorem C10_planner_drafts_witness:
  "length (fst (plan_task example_uuid4 0 (example_request ''Research, code, ANALYZE and Write''))) = 4 \<and>
   list_all (\<lambda>s. status_s s = PENDING \<and> progress_s s = 0 \<and> result_s s = None \<and> error_s s = None)
     (fst (plan_task example_uuid4 0 (example_request ''Research, code, ANALYZE and Write''))) \<and>
   distinct (map type_s (fst (plan_task example_uuid4 0
      (example_request ''Research, code, ANALYZE and Write''))))"
proof -
  have "length (fst (plan_task example_uuid4 0
          (example_request ''Research, code, ANALYZE and Write''))) = 4"
    by code_simp
  with C10_planner_drafts [of example_uuid4 0 "example_request ''Research, code, ANALYZE and Write''"]
  show ?thesis by (simp add: list_all_iff)
qed

section \<open>Progress and status of a task under execution\<close>

text \<open>
  Claim C2. A task's progress never decreases over its lifetime: the progress values of
  the response stored by \<^verbatim>\<open>submit_task\<close> and of every state \<^verbatim>\<open>execute_task\<close> then goes
  through or writes to the store are in non-decreasing order. The same holds for the run
  of \<^verbatim>\<open>execute_task\<close> on any stored task whose progress does not exceed the fraction of
  its subtasks that are completed.
\<close>

theorem C2_progress_never_decreases:
  "sorted (map progress (lifetime str uuid4 srv0 request)) \<and>
   (redis_up srv \<and> redis_db srv (task_key i) = Some t \<and>
    progress t \<le> fraction (map Subtask_parse (subtasks t)) \<longrightarrow>
      sorted (progress t # map (\<lambda>e. progress (event_task e)) (events_of srv i)))"
  using lifetime_sorted [of str uuid4 srv0 request] events_sorted [of srv i t] by blast

theorem C2_progress_never_decreases_witness:
  "redis_up (submitted ''research and write'') \<and>
   redis_db (submitted ''research and write'') (task_key ''u'') =
     Some \<lparr>task_id = ''u'', status = PENDING, result = None, error = None, progress = 0,
           subtasks = [Subtask_dict (Subtask_init ''uu'' WEB_RESEARCH PENDING),
                       Subtask_dict (Subtask_init ''uuu'' CONTENT_CREATION PENDING)]\<rparr> \<and>
   map (\<lambda>e. progress (event_task e)) (events_of (submitted ''research and write'') ''u'') =
     [0, 1 / 2, 1 / 2, 1, 1] \<and>
   sorted (0 # map (\<lambda>e. progress (event_task e)) (events_of (submitted ''research and write'') ''u''))"
proof -
  let ?srv = "submitted ''research and write''"
  let ?t = "\<lparr>task_id = ''u'', status = PENDING, result = None, error = None, progress = 0,
             subtasks = [Subtask_dict (Subtask_init ''uu'' WEB_RESEARCH PENDING),
                         Subtask_dict (Subtask_init ''uuu'' CONTENT_CREATION PENDING)]\<rparr>"
  have up: "redis_up ?srv" by code_simp
  have stored: "redis_db ?srv (task_key ''u'') = Some ?t" by code_simp
  have inv: "progress ?t \<le> fraction (map Subtask_parse (subtasks ?t))" by code_simp
  have evs: "map (\<lambda>e. progress (event_task e)) (events_of ?srv ''u'') = [0, 1 / 2, 1 / 2, 1, 1]"
    by code_simp
  from C2_progress_never_decreases [of example_str example_uuid4 server0
      "example_request ''research and write''" ?srv "''u''" ?t] up stored inv
  have "sorted (progress ?t # map (\<lambda>e. progress (event_task e)) (events_of ?srv ''u''))"
    by blast
  with up stored evs show ?thesis by simp
qed

text \<open>
  Claim C4, as the code has it. \<^verbatim>\<open>execute_task\<close> never assigns \<^verbatim>\<open>IN_PROGRESS\<close> to the
  task: while a subtask runs and in every value saved during the loop the task keeps
  the status it was stored with, and the only change is to \<^verbatim>\<open>COMPLETED\<close> in the final
  write. A task created by \<^verbatim>\<open>submit_task\<close> is therefore \<^verbatim>\<open>PENDING\<close> or \<^verbatim>\<open>COMPLETED\<close>
  in every state of its lifetime.
\<close>

theorem C4_task_status_kept_until_completed:
  "(redis_up srv \<and> redis_db srv (task_key i) = Some t \<longrightarrow>
      (\<forall>e\<in>set (events_of srv i).
         status (event_task e) = (case e of Finished x \<Rightarrow> COMPLETED | _ \<Rightarrow> status t))) \<and>
   (\<forall>x\<in>set (lifetime str uuid4 srv0 request). status x = PENDING \<or> status x = COMPLETED)"
  using events_status [of srv i t] lifetime_status [of _ str uuid4 srv0 request] by blast

theorem C4_task_status_kept_until_completed_witness:
  "redis_up (submitted ''write'') \<and>
   redis_db (submitted ''write'') (task_key ''u'') =
     Some \<lparr>task_id = ''u'', status = PENDING, result = None, error = None, progress = 0,
           subtasks = [Subtask_dict (Subtask_init ''uu'' CONTENT_CREATION PENDING)]\<rparr> \<and>
   map is_Started (events_of (submitted ''write'') ''u'') = [True, False, False] \<and>
   map (\<lambda>e. status (event_task e)) (events_of (submitted ''write'') ''u'') =
     [PENDING, PENDING, COMPLETED] \<and>
   list_all (\<lambda>x. status x = PENDING \<or> status x = COMPLETED)
     (lifetime example_str example_uuid4 server0 (example_request ''write''))"
proof -
  let ?srv = "submitted ''write''"
  let ?t = "\<lparr>task_id = ''u'', status = PENDING, result = None, error = None, progress = 0,
           subtasks = [Subtask_dict (Subtask_init ''uu'' CONTENT_CREATION PENDING)]\<rparr>"
  have up: "redis_up ?srv" by code_simp
  have stored: "redis_db ?srv (task_key ''u'') = Some ?t" by code_simp
  have shape: "map is_Started (events_of ?srv ''u'') = [True, False, False]" by code_simp
  have std: "map (\<lambda>e. status (event_task e)) (events_of ?srv ''u'') = [PENDING, PENDING, COMPLETED]"
    by code_simp
  from C4_task_status_kept_until_completed [of ?srv "''u''" ?t example_str example_uuid4 server0
      "example_request ''write''"]
  have "list_all (\<lambda>x. status x = PENDING \<or> status x = COMPLETED)
     (lifetime example_str example_uuid4 server0 (example_request ''write''))"
    by (simp add: list_all_iff)
  with up stored shape std show ?thesis by simp
qed

text \<open>
  Claim C4 as stated fails: for the description \<^verbatim>\<open>write\<close> the single subtask is
  \<^verbatim>\<open>IN_PROGRESS\<close> while the task is still \<^verbatim>\<open>PENDING\<close>, and no state of the task's
  lifetime has the status \<^verbatim>\<open>IN_PROGRESS\<close>.
\<close>

theorem C4_task_pending_while_subtask_runs_counterexample:
  "hd (events_of (submitted ''write'') ''u'') =
     Started \<lparr>task_id = ''u'', status = PENDING, result = None, error = None, progress = 0,
              subtasks = [Subtask_dict (Subtask_init ''uu'' CONTENT_CREATION IN_PROGRESS)]\<rparr> \<and>
   PENDING \<noteq> IN_PROGRESS \<and>
   IN_PROGRESS \<notin> set (map status (lifetime example_str example_uuid4 server0 (example_request ''write'')))"
  by code_simp


text \<open>
  Claim C1, as the code has it. For a stored task with at least one \<^verbatim>\<open>PENDING\<close> subtask,
  all of whose subtasks are \<^verbatim>\<open>PENDING\<close> or \<^verbatim>\<open>COMPLETED\<close> (every task that \<^verbatim>\<open>submit_task\<close>
  creates from a non-empty plan is one), \<^verbatim>\<open>execute_task\<close> returns and leaves the task in
  the store with progress 1 and status \<^verbatim>\<open>COMPLETED\<close>.
\<close>

theorem C1_nonempty_task_completes:
  assumes up: "redis_up srv" and stored: "redis_db srv (task_key i) = Some t"
    and all: "\<forall>d\<in>set (subtasks t). status_s d = PENDING \<or> status_s d = COMPLETED"
    and some: "\<exists>d\<in>set (subtasks t). status_s d = PENDING"
  shows "\<exists>t'. stored_after srv i = Some t' \<and> progress t' = 1 \<and> status t' = COMPLETED"
proof -
  let ?sts = "map Subtask_parse (subtasks t)"
  let ?p = "process_subtasks t [] ?sts"
  from all have all': "\<forall>s\<in>set ?sts. status_s s = PENDING \<or> status_s s = COMPLETED" by simp
  from some have some': "\<exists>s\<in>set ?sts. status_s s = PENDING" by simp
  have alld: "\<forall>s\<in>set (finish_all ?sts). status_s s = COMPLETED"
    using all' by (rule finish_all_completed)
  then have la: "list_all (\<lambda>st. status_s st = COMPLETED) (finish_all ?sts)"
    by (simp add: list_all_iff)
  from some have ne: "finish_all ?sts \<noteq> []" by (auto simp: finish_all_def)
  have prog: "progress (fst (snd ?p)) = 1"
    using process_subtasks_progress [of t "[]" ?sts] some' fraction_all_completed [OF ne alld]
    by simp
  let ?fin = "task_dict (fst (snd ?p)\<lparr>status := COMPLETED\<rparr>) (finish_all ?sts)"
  have "events_of srv i = fst ?p @ [Finished ?fin]"
    using execute_task_found(1) [OF up stored] la by simp
  then have "stored_after srv i = Some ?fin"
    using execute_task_found(2) [OF up stored] by simp
  moreover have "progress ?fin = 1" "status ?fin = COMPLETED"
    using prog by (simp_all add: task_dict_def)
  ultimately show ?thesis by blast
qed

theorem C1_nonempty_task_completes_witness:
  "redis_up (submitted ''research and write'') \<and>
   redis_db (submitted ''research and write'') (task_key ''u'') =
     Some \<lparr>task_id = ''u'', status = PENDING, result = None, error = None, progress = 0,
           subtasks = [Subtask_dict (Subtask_init ''uu'' WEB_RESEARCH PENDING),
                       Subtask_dict (Subtask_init ''uuu'' CONTENT_CREATION PENDING)]\<rparr> \<and>
   map_option progress (stored_after (submitted ''research and write'') ''u'') = Some 1 \<and>
   map_option status (stored_after (submitted ''research and write'') ''u'') = Some COMPLETED"
proof -
  let ?srv = "submitted ''research and write''"
  let ?t = "\<lparr>task_id = ''u'', status = PENDING, result = None, error = None, progress = 0,
             subtasks = [Subtask_dict (Subtask_init ''uu'' WEB_RESEARCH PENDING),
                         Subtask_dict (Subtask_init ''uuu'' CONTENT_CREATION PENDING)]\<rparr>"
  have up: "redis_up ?srv" by code_simp
  have stored: "redis_db ?srv (task_key ''u'') = Some ?t" by code_simp
  have all: "\<forall>d\<in>set (subtasks ?t). status_s d = PENDING \<or> status_s d = COMPLETED" by code_simp
  have some: "\<exists>d\<in>set (subtasks ?t). status_s d = PENDING" by code_simp
  from C1_nonempty_task_completes [OF up stored all some] up stored
  show ?thesis by auto
qed

text \<open>
  Claim C1 as stated fails for a task without subtasks: the description \<^verbatim>\<open>hello\<close>
  matches no keyword, the task is stored with an empty subtask list, and after
  \<^verbatim>\<open>execute_task\<close> its status is \<^verbatim>\<open>COMPLETED\<close> while its progress is still 0.
\<close>

theorem C1_empty_task_counterexample:
  "map_option subtasks (redis_db (submitted ''hello'') (task_key ''u'')) = Some [] \<and>
   map_option status (stored_after (submitted ''hello'') ''u'') = Some COMPLETED \<and>
   map_option progress (stored_after (submitted ''hello'') ''u'') = Some 0 \<and>
   map_option progress (stored_after (submitted ''hello'') ''u'') \<noteq> Some 1"
  by code_simp

text \<open>
  Claim C3, as the code has it. In every state of a submitted task's lifetime whose
  status is \<^verbatim>\<open>COMPLETED\<close>, every subtask is \<^verbatim>\<open>COMPLETED\<close>; the progress is 1 if the task
  has a subtask and 0 if it has none. More generally, for a task stored with another
  status than \<^verbatim>\<open>COMPLETED\<close>, every state that \<^verbatim>\<open>execute_task\<close> goes through or writes
  with status \<^verbatim>\<open>COMPLETED\<close> has all its subtasks \<^verbatim>\<open>COMPLETED\<close>, with progress 1 if the
  run started a subtask and the stored progress otherwise.
\<close>

theorem C3_completed_only_when_all_subtasks_completed:
  "(x \<in> set (lifetime str uuid4 srv0 request) \<and> status x = COMPLETED \<longrightarrow>
      (\<forall>d\<in>set (subtasks x). status_s d = COMPLETED) \<and>
      (subtasks x \<noteq> [] \<longrightarrow> progress x = 1) \<and> (subtasks x = [] \<longrightarrow> progress x = 0)) \<and>
   (redis_up srv \<and> redis_db srv (task_key i) = Some t \<and> status t \<noteq> COMPLETED \<and>
    e \<in> set (events_of srv i) \<and> status (event_task e) = COMPLETED \<longrightarrow>
      (\<forall>d\<in>set (subtasks (event_task e)). status_s d = COMPLETED) \<and>
      ((\<exists>e'\<in>set (events_of srv i). is_Started e') \<longrightarrow> progress (event_task e) = 1) \<and>
      (\<not> (\<exists>e'\<in>set (events_of srv i). is_Started e') \<longrightarrow> progress (event_task e) = progress t))"
  using completed_lifetime_state [of x str uuid4 srv0 request] completed_event [of srv i t e]
  by blast

theorem C3_completed_only_when_all_subtasks_completed_witness:
  "map status (lifetime example_str example_uuid4 server0 (example_request ''research and write'')) =
     [PENDING, PENDING, PENDING, PENDING, PENDING, COMPLETED] \<and>
   map (\<lambda>x. map status_s (subtasks x))
     (lifetime example_str example_uuid4 server0 (example_request ''research and write'')) =
     [[PENDING, PENDING], [IN_PROGRESS, PENDING], [COMPLETED, PENDING],
      [COMPLETED, IN_PROGRESS], [COMPLETED, COMPLETED], [COMPLETED, COMPLETED]] \<and>
   list_all (\<lambda>d. status_s d = COMPLETED)
     (subtasks (last (lifetime example_str example_uuid4 server0
        (example_request ''research and write'')))) \<and>
   progress (last (lifetime example_str example_uuid4 server0
        (example_request ''research and write''))) = 1 \<and>
   redis_up (submitted ''research and write'') \<and>
   map_option status (redis_db (submitted ''research and write'') (task_key ''u'')) = Some PENDING \<and>
   map is_Started (events_of (submitted ''research and write'') ''u'') =
     [True, False, True, False, False] \<and>
   status (event_task (last (events_of (submitted ''research and write'') ''u''))) = COMPLETED \<and>
   list_all (\<lambda>d. status_s d = COMPLETED)
     (subtasks (event_task (last (events_of (submitted ''research and write'') ''u'')))) \<and>
   progress (event_task (last (events_of (submitted ''research and write'') ''u''))) = 1"
proof -
  let ?l = "lifetime example_str example_uuid4 server0 (example_request ''research and write'')"
  let ?srv = "submitted ''research and write''"
  let ?t = "\<lparr>task_id = ''u'', status = PENDING, result = None, error = None, progress = 0,
             subtasks = [Subtask_dict (Subtask_init ''uu'' WEB_RESEARCH PENDING),
                         Subtask_dict (Subtask_init ''uuu'' CONTENT_CREATION PENDING)]\<rparr>"
  let ?e = "last (events_of ?srv ''u'')"
  have sts: "map status ?l = [PENDING, PENDING, PENDING, PENDING, PENDING, COMPLETED]"
    by code_simp
  have subs: "map (\<lambda>x. map status_s (subtasks x)) ?l =
     [[PENDING, PENDING], [IN_PROGRESS, PENDING], [COMPLETED, PENDING],
      [COMPLETED, IN_PROGRESS], [COMPLETED, COMPLETED], [COMPLETED, COMPLETED]]"
    by code_simp
  have mem: "last ?l \<in> set ?l" by code_simp
  have c: "status (last ?l) = COMPLETED" by code_simp
  have ne: "subtasks (last ?l) \<noteq> []" by code_simp
  have up: "redis_up ?srv" by code_simp
  have stored: "redis_db ?srv (task_key ''u'') = Some ?t" by code_simp
  have nc: "status ?t \<noteq> COMPLETED" by code_simp
  have e: "?e \<in> set (events_of ?srv ''u'')" by code_simp
  have ce: "status (event_task ?e) = COMPLETED" by code_simp
  have started: "map is_Started (events_of ?srv ''u'') = [True, False, True, False, False]"
    by code_simp
  have st: "\<exists>e'\<in>set (events_of ?srv ''u''). is_Started e'" by code_simp
  note C = C3_completed_only_when_all_subtasks_completed [of "last ?l" example_str example_uuid4
      server0 "example_request ''research and write''" ?srv "''u''" ?t ?e]
  from C mem c ne
  have a: "(\<forall>d\<in>set (subtasks (last ?l)). status_s d = COMPLETED) \<and> progress (last ?l) = 1"
    by blast
  from C up stored nc e ce st
  have b: "(\<forall>d\<in>set (subtasks (event_task ?e)). status_s d = COMPLETED) \<and>
           progress (event_task ?e) = 1"
    by blast
  have a': "list_all (\<lambda>d. status_s d = COMPLETED) (subtasks (last ?l))"
    using a unfolding list_all_iff by blast
  have b': "list_all (\<lambda>d. status_s d = COMPLETED) (subtasks (event_task ?e))"
    using b unfolding list_all_iff by blast
  have so: "map_option status (redis_db ?srv (task_key ''u'')) = Some PENDING" by code_simp
  from sts subs a a' b b' up so started ce show ?thesis by blast
qed

text \<open>
  Claim C3 as stated fails for the empty subtask list: the only write of \<^verbatim>\<open>execute_task\<close>
  for the task created from the description \<^verbatim>\<open>hello\<close> sets \<^verbatim>\<open>COMPLETED\<close> with progress 0.
\<close>

theorem C3_completed_with_progress_zero_counterexample:
  "events_of (submitted ''hello'') ''u'' =
     [Finished \<lparr>task_id = ''u'', status = COMPLETED, result = None, error = None,
                progress = 0, subtasks = []\<rparr>] \<and> (0::rat) \<noteq> 1"
  by code_simp


section \<open>Errors at the transport boundary\<close>

text \<open>
  Claim C6, evaluated on the code. A submission with an empty description is rejected
  before any identifier is drawn or any plan made, and the state (store, queue, created
  executions) is unchanged; but the \<^verbatim>\<open>HTTPException\<close> with status 400 raised for it is
  caught by the endpoint's own \<^verbatim>\<open>except Exception\<close>, so the caller receives status 500,
  which the client classifies as a retryable server error and not, as it does status
  400, as a validation error.
\<close>

theorem C6_empty_description_answered_with_status_500:
  "submit_task str uuid4 srv (request\<lparr>task := []\<rparr>) =
     (Inl (HTTPException 500
            (''Error submitting task: '' @ str (HTTPException 400 ''Invalid task''))), srv) \<and>
   map_option (\<lambda>e. type_e (handleApiError e m))
     (axios_error_of (fst (submit_task str uuid4 srv (request\<lparr>task := []\<rparr>)))) =
     Some SERVER_ERROR \<and>
   map_option (\<lambda>e. retryable (handleApiError e m))
     (axios_error_of (fst (submit_task str uuid4 srv (request\<lparr>task := []\<rparr>)))) =
     Some True \<and>
   type_e (handleApiError (AxiosResponse 400 (Some ''Invalid task'') None) m) = VALIDATION_ERROR"
  by (simp add: submit_task_def submit_task_try_def validate_task_def handleApiError_def)

text \<open>
  Claim C7, evaluated on the code. \<^verbatim>\<open>get_task_status\<close> returns the stored task when the
  id exists. For an unknown id the \<^verbatim>\<open>HTTPException\<close> with status 404 raised in the body
  is caught by \<^verbatim>\<open>except Exception\<close> and answered with status 500, the status an
  unreachable store is answered with as well; the client classifies both answers alike,
  as a retryable server error.
\<close>

theorem C7_unknown_id_answered_like_unreachable_store:
  "get_task_status str (srv\<lparr>redis_up := True, redis_db := (redis_db srv)(task_key i \<mapsto> t)\<rparr>) i =
     Inr (task_dict t (map Subtask_parse (subtasks t))) \<and>
   get_task_status str (srv\<lparr>redis_up := True, redis_db := (redis_db srv)(task_key i := None)\<rparr>) i =
     Inl (HTTPException 500 (str (HTTPException 404 ''Task not found''))) \<and>
   get_task_status str (srv\<lparr>redis_up := False\<rparr>) i = Inl (HTTPException 500 (str ConnectionError)) \<and>
   map_option (\<lambda>e. (type_e (handleApiError e m), statusCode (handleApiError e m),
                     retryable (handleApiError e m)))
     (axios_error_of (get_task_status str
        (srv\<lparr>redis_up := True, redis_db := (redis_db srv)(task_key i := None)\<rparr>) i)) =
     Some (SERVER_ERROR, Some 500, True) \<and>
   map_option (\<lambda>e. (type_e (handleApiError e m), statusCode (handleApiError e m),
                     retryable (handleApiError e m)))
     (axios_error_of (get_task_status str (srv\<lparr>redis_up := False\<rparr>) i)) =
     Some (SERVER_ERROR, Some 500, True)"
  by (simp add: get_task_status_def get_task_status_try_def redis_get_def handleApiError_def)

section \<open>Replay playback\<close>





end
